theory Spec2Isabelle
  imports Complex_Main "HOL-Library.AList" "HOL-Library.Multiset"
begin

section \<open>The project scaffolder of c1tools (\<^verbatim>\<open>src/c1tools/proj/__init__.py\<close>)\<close>

text \<open>
  The module works on three directories: the working directory \<^verbatim>\<open>WORKDIR\<close>, the new
  project directory inside it, and the download folder inside the home directory. The
  embedding keeps each directory as the list of its entries, in the order in which the
  operating system lists them, and passes the file system through every function as an
  explicit state. Every exception of the source is a value of type \<open>error\<close>.

  Scope of the file-system model:
  \<^item> a character is a code point below 256 (the French name of the download folder
    and the superscript digits are inside that range);
  \<^item> an entry is a regular file, a directory, or a special entry (a FIFO or a socket);
    symbolic links are not modelled;
  \<^item> a time stamp is a real number of seconds, as every float is; \<open>rnd\<close> is the rounding
    of a real number to the nearest float, which the embedding takes as a parameter
    (the identity in the evaluations below, whose numbers are small integers);
  \<^item> \<^verbatim>\<open>time()\<close> is a sequence of readings, one for each call;
  \<^item> the working directory is neither the home directory nor inside the download
    folder, so the entries of the two never alias;
  \<^item> the modification time of a directory is not advanced when an entry is added to
    it or removed from it;
  \<^item> log messages are not part of the state.
\<close>

subsection \<open>Errors\<close>

datatype error =
    ValueError
  | FileExistsError
  | FileNotFoundError
  | IsADirectoryError
  | OSError
  | OverflowError
  | ShutilError
  | SpecialFileError

subsection \<open>Strings\<close>

definition startswith :: "string \<Rightarrow> string \<Rightarrow> bool" where
  "startswith s p = (take (length p) s = p)"

definition endswith :: "string \<Rightarrow> string \<Rightarrow> bool" where
  "endswith s x = (length x \<le> length s \<and> drop (length s - length x) s = x)"

text \<open>
  \<^verbatim>\<open>str.isdigit\<close>: a non-empty string of digit characters. Below code point 256 these
  are the ten decimal digits and the superscripts one, two and three (U+00B9, U+00B2,
  U+00B3), which \<^verbatim>\<open>int()\<close> rejects.
\<close>

definition is_decimal_char :: "char \<Rightarrow> bool" where
  "is_decimal_char c = (c \<in> set ''0123456789'')"

definition is_digit_char :: "char \<Rightarrow> bool" where
  "is_digit_char c = (is_decimal_char c \<or> c \<in> set [CHR 0xB2, CHR 0xB3, CHR 0xB9])"

definition isdigit :: "string \<Rightarrow> bool" where
  "isdigit s = (s \<noteq> [] \<and> list_all is_digit_char s)"

definition digit_value :: "char \<Rightarrow> int" where
  "digit_value c = int (of_char c) - 48"

text \<open>
  \<^verbatim>\<open>int(s)\<close> for a string that passed \<^verbatim>\<open>isdigit\<close>: the decimal value when every
  character is a decimal digit, \<^verbatim>\<open>ValueError\<close> otherwise.
\<close>

definition int_of_digits :: "string \<Rightarrow> error + int" where
  "int_of_digits s =
     (if s \<noteq> [] \<and> list_all is_decimal_char s
      then Inr (foldl (\<lambda>acc c. 10 * acc + digit_value c) 0 s)
      else Inl ValueError)"

fun decimal :: "nat \<Rightarrow> string" where
  "decimal n =
     (if n < 10 then [char_of (48 + n)] else decimal (n div 10) @ [char_of (48 + n mod 10)])"

declare decimal.simps [simp del]

text \<open>The format specification \<^verbatim>\<open>:02d\<close>: the sign counts in the width.\<close>

definition format_02d :: "int \<Rightarrow> string" where
  "format_02d n =
     (if n < 0 then CHR ''-'' # decimal (nat (- n))
      else if n < 10 then CHR ''0'' # decimal (nat n)
      else decimal (nat n))"

subsection \<open>File-system entries\<close>

datatype node =
    File (st_mtime: real) (content: string)
  | Dir (st_mtime: real) (entries: "(string \<times> node) list")
  | Special (st_mtime: real)

type_synonym listing = "(string \<times> node) list"

definition is_dir :: "node option \<Rightarrow> bool" where
  "is_dir p = (case p of Some (Dir _ _) \<Rightarrow> True | _ \<Rightarrow> False)"

definition exists_in :: "listing \<Rightarrow> string \<Rightarrow> bool" where
  "exists_in d name = (name \<in> set (map fst d))"

text \<open>
  \<^verbatim>\<open>Path.glob\<close> with a pattern \<^verbatim>\<open>*\<close> followed by literal text: the entries whose
  name ends with the text (hidden entries included, case-sensitive), in listing order.
\<close>

definition glob_star :: "string \<Rightarrow> listing \<Rightarrow> listing" where
  "glob_star tail d = filter (\<lambda>e. endswith (fst e) tail) d"

text \<open>\<^verbatim>\<open>PurePath.suffix\<close>, \<^verbatim>\<open>stem\<close> and \<^verbatim>\<open>with_suffix\<close> on the last path component.\<close>

fun rfind :: "char \<Rightarrow> string \<Rightarrow> nat option" where
  "rfind c [] = None"
| "rfind c (x # xs) =
     (case rfind c xs of
        Some i \<Rightarrow> Some (Suc i)
      | None \<Rightarrow> if x = c then Some 0 else None)"

definition path_suffix :: "string \<Rightarrow> string" where
  "path_suffix name =
     (case rfind CHR ''.'' name of
        Some i \<Rightarrow> if 0 < i \<and> i + 1 < length name then drop i name else []
      | None \<Rightarrow> [])"

definition stem :: "string \<Rightarrow> string" where
  "stem name =
     (case rfind CHR ''.'' name of
        Some i \<Rightarrow> if 0 < i \<and> i + 1 < length name then take i name else name
      | None \<Rightarrow> name)"

definition with_suffix :: "string \<Rightarrow> string \<Rightarrow> string" where
  "with_suffix name suffix =
     (let old_suffix = path_suffix name
      in if old_suffix = [] then name @ suffix
         else take (length name - length old_suffix) name @ suffix)"

text \<open>\<^verbatim>\<open>Path.mkdir(exist_ok=True)\<close>: an existing non-directory is an error.\<close>

definition mkdir_exist_ok :: "real \<Rightarrow> string \<Rightarrow> listing \<Rightarrow> error + listing" where
  "mkdir_exist_ok now name d =
     (case map_of d name of
        None \<Rightarrow> Inr (AList.update name (Dir now []) d)
      | Some (Dir _ _) \<Rightarrow> Inr d
      | Some _ \<Rightarrow> Inl FileExistsError)"

text \<open>
  \<^verbatim>\<open>Path.write_text\<close>: creates or truncates a regular file. A directory in the way
  raises; opening a socket raises and opening a FIFO blocks, so no file is written over a
  special entry either.
\<close>

definition write_text :: "real \<Rightarrow> string \<Rightarrow> string \<Rightarrow> listing \<Rightarrow> error + listing" where
  "write_text now name text d =
     (case map_of d name of
        Some (Dir _ _) \<Rightarrow> Inl IsADirectoryError
      | Some (Special _) \<Rightarrow> Inl OSError
      | _ \<Rightarrow> Inr (AList.update name (File now text) d))"

text \<open>\<^verbatim>\<open>Path.unlink\<close>: removes an entry that is not a directory.\<close>

definition unlink :: "string \<Rightarrow> listing \<Rightarrow> error + listing" where
  "unlink name d =
     (case map_of d name of
        None \<Rightarrow> Inl FileNotFoundError
      | Some (Dir _ _) \<Rightarrow> Inl IsADirectoryError
      | Some _ \<Rightarrow> Inr (AList.delete name d))"

subsection \<open>Numbering the project directories\<close>

text \<open>\<^verbatim>\<open>max\<close> of a list: \<^verbatim>\<open>ValueError\<close> on the empty list.\<close>

definition py_max :: "int list \<Rightarrow> error + int" where
  "py_max xs = (case xs of [] \<Rightarrow> Inl ValueError | x # ys \<Rightarrow> Inr (fold max ys x))"

fun collect :: "(error + 'a) list \<Rightarrow> error + 'a list" where
  "collect [] = Inr []"
| "collect (Inl e # _) = Inl e"
| "collect (Inr x # rs) = (case collect rs of Inl e \<Rightarrow> Inl e | Inr xs \<Rightarrow> Inr (x # xs))"

definition existing_project_type_dirs :: "string \<Rightarrow> listing \<Rightarrow> string list" where
  "existing_project_type_dirs project_type workdir =
     map fst (filter (\<lambda>d. is_dir (Some (snd d)) \<and> startswith (fst d) project_type) workdir)"

text \<open>
  Lines 108 to 117 of the module. The suffix of a directory name is \<^verbatim>\<open>d.name[2:]\<close>:
  the slice starts at index 2 whatever the length of \<open>project_type\<close>.
\<close>

definition next_project_type_number :: "string \<Rightarrow> listing \<Rightarrow> error + int" where
  "next_project_type_number project_type workdir =
     (let dirs = existing_project_type_dirs project_type workdir
      in if dirs \<noteq> [] then
           (case collect (map (\<lambda>name. int_of_digits (drop 2 name))
                            (filter (\<lambda>name. isdigit (drop 2 name)) dirs)) of
              Inl e \<Rightarrow> Inl e
            | Inr existing_project_type_numbers \<Rightarrow>
                (case py_max existing_project_type_numbers of
                   Inl e \<Rightarrow> Inl e
                 | Inr m \<Rightarrow> Inr (m + 1)))
         else Inr 1)"

definition project_dir_name :: "string \<Rightarrow> int \<Rightarrow> string" where
  "project_dir_name project_type next_number = project_type @ format_02d next_number"

subsection \<open>The download folder\<close>

text \<open>The folder name with its two e-acute characters (U+00E9).\<close>

definition Telechargements :: string where
  "Telechargements = ''T'' @ [CHR 0xE9] @ ''l'' @ [CHR 0xE9] @ ''chargements''"

text \<open>\<open>download_dir\<close> returns the name of the folder inside the home directory.\<close>

definition download_dir :: "listing \<Rightarrow> string" where
  "download_dir home_entries =
     (if exists_in home_entries Telechargements then Telechargements else ''Downloads'')"

text \<open>The entries of a directory of a listing; globbing in anything else yields nothing.\<close>

definition entries_of :: "string \<Rightarrow> listing \<Rightarrow> listing" where
  "entries_of name d = (case map_of d name of Some (Dir _ es) \<Rightarrow> es | _ \<Rightarrow> [])"

text \<open>
  \<^verbatim>\<open>float - int\<close>: the integer is converted to a float first, which raises
  \<^verbatim>\<open>OverflowError\<close> when it rounds to \<open>2 ^ 1024\<close> or beyond; the difference of the two
  floats is rounded in turn.
\<close>

definition float_minus_int :: "(real \<Rightarrow> real) \<Rightarrow> real \<Rightarrow> int \<Rightarrow> error + real" where
  "float_minus_int rnd x n =
     (if 2 ^ 1024 - 2 ^ 970 \<le> \<bar>n\<bar> then Inl OverflowError
      else Inr (rnd (x - rnd (of_int n))))"

text \<open>
  The list comprehension of lines 44 to 46. The test of the entry at position \<open>i\<close> calls
  \<^verbatim>\<open>time()\<close> itself: \<open>time i\<close> is the reading of that call.
\<close>

fun filtered_files ::
  "(real \<Rightarrow> real) \<Rightarrow> (nat \<Rightarrow> real) \<Rightarrow> int \<Rightarrow> nat \<Rightarrow> listing \<Rightarrow> error + listing" where
  "filtered_files rnd time max_age_in_minutes i [] = Inr []"
| "filtered_files rnd time max_age_in_minutes i (f # all_files) =
     (case float_minus_int rnd (time i) (max_age_in_minutes * 60) of
        Inl e \<Rightarrow> Inl e
      | Inr oldest \<Rightarrow>
          (case filtered_files rnd time max_age_in_minutes (Suc i) all_files of
             Inl e \<Rightarrow> Inl e
           | Inr fs \<Rightarrow> Inr (if oldest \<le> st_mtime (snd f) then f # fs else fs)))"

text \<open>
  \<open>get_latest_downloads\<close>, lines 42 to 47. \<^verbatim>\<open>sorted(..., reverse=True)\<close> is the stable
  ascending sort of the reversed list, reversed.
\<close>

definition get_latest_downloads ::
  "(real \<Rightarrow> real) \<Rightarrow> listing \<Rightarrow> (nat \<Rightarrow> real) \<Rightarrow> int \<Rightarrow> error + string list" where
  "get_latest_downloads rnd home_entries time max_age_in_minutes =
     (let all_files = glob_star [] (entries_of (download_dir home_entries) home_entries)
      in case filtered_files rnd time max_age_in_minutes 0 all_files of
           Inl e \<Rightarrow> Inl e
         | Inr fs \<Rightarrow> Inr (map fst (rev (sort_key (\<lambda>x. st_mtime (snd x)) (rev fs)))))"

subsection \<open>Harvesting the downloads\<close>

text \<open>
  \<^verbatim>\<open>shutil.copytree\<close> copies regular files and directories with their time stamps; a
  special entry inside the tree makes it raise \<^verbatim>\<open>shutil.Error\<close>.
\<close>

fun copyable :: "node \<Rightarrow> bool" where
  "copyable (File _ _) = True"
| "copyable (Dir _ es) = list_all (\<lambda>e. copyable (snd e)) es"
| "copyable (Special _) = False"

text \<open>
  \<^verbatim>\<open>shutil.move\<close> to a free destination. When \<^verbatim>\<open>os.rename\<close> works (\<open>same_fs\<close>: both
  directories on one file system) the entry is renamed. Otherwise a directory is copied
  with \<^verbatim>\<open>copytree\<close> and then removed, and anything else is copied with \<^verbatim>\<open>copy2\<close> and
  then unlinked; \<^verbatim>\<open>copy2\<close> raises on a special entry.
\<close>

definition shutil_move ::
  "bool \<Rightarrow> string \<Rightarrow> listing \<times> listing \<Rightarrow> error + listing \<times> listing" where
  "shutil_move same_fs name st =
     (let downloads = fst st; destination = snd st
      in case map_of downloads name of
           None \<Rightarrow> Inl FileNotFoundError
         | Some n \<Rightarrow>
             if same_fs then Inr (AList.delete name downloads, AList.update name n destination)
             else
               (case n of
                  File m c \<Rightarrow>
                    Inr (AList.delete name downloads, AList.update name (File m c) destination)
                | Dir m es \<Rightarrow>
                    if copyable (Dir m es)
                    then Inr (AList.delete name downloads,
                              AList.update name (Dir m es) destination)
                    else Inl ShutilError
                | Special _ \<Rightarrow> Inl SpecialFileError))"

text \<open>
  One round of the loop of lines 130 to 145, on the pair of the download folder's entries
  and the project directory's entries. \<^verbatim>\<open>shutil.copy2\<close> copies a regular file with its
  time stamp.
\<close>

definition harvest_one ::
  "bool \<Rightarrow> bool \<Rightarrow> string \<Rightarrow> listing \<times> listing \<Rightarrow> error + listing \<times> listing" where
  "harvest_one same_fs move_instead_of_copy name st =
     (let downloads = fst st; destination = snd st
      in if exists_in destination name then Inr st
         else if move_instead_of_copy then shutil_move same_fs name st
         else
           (case map_of downloads name of
              Some (File m c) \<Rightarrow> Inr (downloads, AList.update name (File m c) destination)
            | Some (Dir m es) \<Rightarrow>
                if copyable (Dir m es)
                then Inr (downloads, AList.update name (Dir m es) destination)
                else Inl ShutilError
            | _ \<Rightarrow> Inr st))"

fun harvest ::
  "bool \<Rightarrow> bool \<Rightarrow> string list \<Rightarrow> listing \<times> listing \<Rightarrow> error + listing \<times> listing" where
  "harvest same_fs move_instead_of_copy [] st = Inr st"
| "harvest same_fs move_instead_of_copy (name # names) st =
     (case harvest_one same_fs move_instead_of_copy name st of
        Inl e \<Rightarrow> Inl e
      | Inr st' \<Rightarrow> harvest same_fs move_instead_of_copy names st')"

subsection \<open>Markdown stubs\<close>

record date =
  year :: nat
  month :: nat
  day :: nat

definition zero_pad :: "nat \<Rightarrow> nat \<Rightarrow> string" where
  "zero_pad width n = replicate (width - length (decimal n)) CHR ''0'' @ decimal n"

text \<open>\<^verbatim>\<open>datetime.date.isoformat\<close>: \<^verbatim>\<open>YYYY-MM-DD\<close>.\<close>

definition isoformat :: "date \<Rightarrow> string" where
  "isoformat d = zero_pad 4 (year d) @ ''-'' @ zero_pad 2 (month d) @ ''-'' @ zero_pad 2 (day d)"

definition markdown_header :: "date \<Rightarrow> string \<Rightarrow> string" where
  "markdown_header today title =
     ''---'' @ [CHR 0x0A] @
     ''title: '' @ [CHR 0x22] @ ''Rendu '' @ title @ [CHR 0x22, CHR 0x0A] @
     ''author: '' @ [CHR 0x22] @ ''Colin PROKOPOWICZ'' @ [CHR 0x22, CHR 0x0A] @
     ''date: '' @ [CHR 0x22] @ isoformat today @ [CHR 0x22, CHR 0x0A] @
     ''---'' @ [CHR 0x0A, CHR 0x0A] @
     ''# '' @ title @ [CHR 0x0A, CHR 0x0A]"

text \<open>One round of the loop of lines 180 to 189.\<close>

definition create_md_for_pdf :: "date \<Rightarrow> real \<Rightarrow> string \<Rightarrow> listing \<Rightarrow> error + listing" where
  "create_md_for_pdf today now pdf_file destination =
     (let md_filename = stem pdf_file @ ''_rendu_Colin_PROKOPOWICZ.md''
      in if exists_in destination md_filename then Inr destination
         else write_text now md_filename (markdown_header today (stem pdf_file)) destination)"

fun create_md_loop :: "date \<Rightarrow> real \<Rightarrow> string list \<Rightarrow> listing \<Rightarrow> error + listing" where
  "create_md_loop today now [] destination = Inr destination"
| "create_md_loop today now (pdf_file # pdf_files) destination =
     (case create_md_for_pdf today now pdf_file destination of
        Inl e \<Rightarrow> Inl e
      | Inr destination' \<Rightarrow> create_md_loop today now pdf_files destination')"

definition create_md_files_for_pdfs :: "date \<Rightarrow> real \<Rightarrow> int \<Rightarrow> listing \<Rightarrow> error + listing" where
  "create_md_files_for_pdfs today now fallback_project_type_number destination =
     (let pdf_files = map fst (glob_star ''.pdf'' destination)
      in if pdf_files = [] then
           (let title = ''project'' @ format_02d fallback_project_type_number
                          @ ''_rendu_Colin_PROKOPOWICZ'';
                md_filename = title @ ''.md''
            in write_text now md_filename (markdown_header today title) destination)
         else create_md_loop today now pdf_files destination)"

subsection \<open>Creating a project\<close>

record fs =
  workdir :: listing
  home :: listing
  cwd :: "string list"

definition set_entries :: "string \<Rightarrow> listing \<Rightarrow> listing \<Rightarrow> listing" where
  "set_entries name es d =
     (case map_of d name of
        Some (Dir m _) \<Rightarrow> AList.update name (Dir m es) d
      | _ \<Rightarrow> d)"

text \<open>
  \<open>generic_project\<close>, lines 100 to 150. \<open>cwd\<close> is the process's current directory
  relative to \<^verbatim>\<open>WORKDIR\<close>; \<open>now\<close> is the time stamp that the file system gives to what the
  command creates.
\<close>

definition generic_project ::
  "date \<Rightarrow> real \<Rightarrow> (real \<Rightarrow> real) \<Rightarrow> (nat \<Rightarrow> real) \<Rightarrow> bool \<Rightarrow>
   string \<Rightarrow> int \<Rightarrow> bool \<Rightarrow> fs \<Rightarrow> error + fs" where
  "generic_project today now rnd time same_fs project_type download_max_age
     move_instead_of_copy st =
     (case next_project_type_number project_type (workdir st) of
        Inl e \<Rightarrow> Inl e
      | Inr next_number \<Rightarrow>
          (let name = project_dir_name project_type next_number
           in case mkdir_exist_ok now name (workdir st) of
                Inl e \<Rightarrow> Inl e
              | Inr workdir1 \<Rightarrow>
                  (case get_latest_downloads rnd (home st) time download_max_age of
                     Inl e \<Rightarrow> Inl e
                   | Inr latest_downloads \<Rightarrow>
                       (let folder = download_dir (home st)
                        in case harvest same_fs move_instead_of_copy latest_downloads
                                  (entries_of folder (home st), entries_of name workdir1) of
                             Inl e \<Rightarrow> Inl e
                           | Inr (downloads', project_dir) \<Rightarrow>
                               (case create_md_files_for_pdfs today now next_number
                                       project_dir of
                                  Inl e \<Rightarrow> Inl e
                                | Inr project_dir' \<Rightarrow>
                                    Inr \<lparr>workdir = set_entries name project_dir' workdir1,
                                         home = set_entries folder downloads' (home st),
                                         cwd = [name]\<rparr>)))))"

definition td ::
  "date \<Rightarrow> real \<Rightarrow> (real \<Rightarrow> real) \<Rightarrow> (nat \<Rightarrow> real) \<Rightarrow> bool \<Rightarrow> int \<Rightarrow> fs \<Rightarrow> error + fs" where
  "td today now rnd time same_fs download_max_age st =
     generic_project today now rnd time same_fs ''td'' download_max_age True st"

definition tp ::
  "date \<Rightarrow> real \<Rightarrow> (real \<Rightarrow> real) \<Rightarrow> (nat \<Rightarrow> real) \<Rightarrow> bool \<Rightarrow> int \<Rightarrow> fs \<Rightarrow> error + fs" where
  "tp today now rnd time same_fs download_max_age st =
     generic_project today now rnd time same_fs ''tp'' download_max_age True st"

subsection \<open>Converting the stubs\<close>

text \<open>
  The converter is outside the repository: \<open>pandoc d out inp\<close> is what happens when
  \<^verbatim>\<open>subprocess.run\<close> runs it on the directory \<open>d\<close>. It exits with status 0 after writing a
  text to \<open>out\<close>, or it exits with another status, when it writes nothing and
  \<^verbatim>\<open>CalledProcessError\<close> is raised, or it cannot be started, when \<^verbatim>\<open>FileNotFoundError\<close>
  is raised. Lines 90 and 91 catch the second only.
\<close>

datatype outcome = Converted string | CalledProcessError | NotStarted

type_synonym converter = "listing \<Rightarrow> string \<Rightarrow> string \<Rightarrow> outcome"

definition convert :: "converter \<Rightarrow> real \<Rightarrow> string \<Rightarrow> string \<Rightarrow> listing \<Rightarrow> error + listing" where
  "convert pandoc now pdf_file md_file d =
     (case pandoc d pdf_file md_file of
        Converted text \<Rightarrow> Inr (AList.update pdf_file (File now text) d)
      | CalledProcessError \<Rightarrow> Inr d
      | NotStarted \<Rightarrow> Inl FileNotFoundError)"

text \<open>One round of the loop of lines 64 to 91.\<close>

definition rendu_one :: "converter \<Rightarrow> real \<Rightarrow> bool \<Rightarrow> string \<Rightarrow> listing \<Rightarrow> error + listing" where
  "rendu_one pandoc now overwrite md_file d =
     (let pdf_file = with_suffix md_file ''.pdf''
      in if exists_in d pdf_file then
           (if overwrite then
              (case unlink pdf_file d of
                 Inl e \<Rightarrow> Inl e
               | Inr d' \<Rightarrow> convert pandoc now pdf_file md_file d')
            else Inr d)
         else convert pandoc now pdf_file md_file d)"

fun rendu_loop :: "converter \<Rightarrow> real \<Rightarrow> bool \<Rightarrow> string list \<Rightarrow> listing \<Rightarrow> error + listing" where
  "rendu_loop pandoc now overwrite [] d = Inr d"
| "rendu_loop pandoc now overwrite (md_file # md_files) d =
     (case rendu_one pandoc now overwrite md_file d of
        Inl e \<Rightarrow> Inl e
      | Inr d' \<Rightarrow> rendu_loop pandoc now overwrite md_files d')"

definition rendu :: "converter \<Rightarrow> real \<Rightarrow> bool \<Rightarrow> listing \<Rightarrow> error + listing" where
  "rendu pandoc now overwrite workdir_entries =
     (let md_files = map fst (glob_star ''_rendu_Colin_PROKOPOWICZ.md'' workdir_entries)
      in if md_files = [] then Inr workdir_entries
         else rendu_loop pandoc now overwrite md_files workdir_entries)"

section \<open>Numbering: the slice and the empty maximum\<close>

text \<open>
  Claim C1. For every non-empty project type, \<open>create\<close> takes as numeric suffix the
  characters after the prefix, ignores the non-numeric suffixes, and creates the
  directory numbered one above the highest existing one.

  The source slices at index 2, not at the length of the prefix. For the type \<open>lab\<close> and
  an existing directory \<open>lab01\<close> the slice is \<open>b01\<close>, which is not numeric, and the run
  ends in \<^verbatim>\<open>ValueError\<close> where the claim has it create \<open>lab02\<close>. For the type \<open>t\<close> and
  the directories \<open>t01\<close> to \<open>t10\<close> the slices are \<open>1\<close> to \<open>9\<close> and \<open>0\<close>, and the computed name
  is \<open>t10\<close>, which exists, where the claim has \<open>t11\<close>.
\<close>

theorem generic_project_slice_at_two:
  "generic_project today now rnd time same_fs ''lab'' age mv
     \<lparr>workdir = [(''lab01'', Dir m [])], home = h, cwd = []\<rparr> = Inl ValueError
   \<and> map_sum id (project_dir_name ''t'')
       (next_project_type_number ''t''
          [(''t01'', Dir m []), (''t02'', Dir m []), (''t03'', Dir m []), (''t04'', Dir m []),
           (''t05'', Dir m []), (''t06'', Dir m []), (''t07'', Dir m []), (''t08'', Dir m []),
           (''t09'', Dir m []), (''t10'', Dir m [])]) = Inr ''t10''"
proof
  have "next_project_type_number ''lab'' [(''lab01'', Dir m [])] = Inl ValueError"
    by code_simp
  then show "generic_project today now rnd time same_fs ''lab'' age mv
      \<lparr>workdir = [(''lab01'', Dir m [])], home = h, cwd = []\<rparr> = Inl ValueError"
    by (simp add: generic_project_def)
next
  show "map_sum id (project_dir_name ''t'')
       (next_project_type_number ''t''
          [(''t01'', Dir m []), (''t02'', Dir m []), (''t03'', Dir m []), (''t04'', Dir m []),
           (''t05'', Dir m []), (''t06'', Dir m []), (''t07'', Dir m []), (''t08'', Dir m []),
           (''t09'', Dir m []), (''t10'', Dir m [])]) = Inr ''t10''"
    by code_simp
qed

text \<open>
  Claim C3. The computation of the next sequence number never raises, and yields 1
  whenever no numeric suffix is found, also when directories with the prefix exist.

  With the single directory \<open>td_old\<close> in the working directory, the list of directories
  is not empty, the list of numbers is, and \<^verbatim>\<open>max\<close> raises \<^verbatim>\<open>ValueError\<close>, which ends
  the whole command.
\<close>

theorem next_number_raises_without_numeric_suffix:
  "next_project_type_number ''td'' [(''td_old'', Dir m [])] = Inl ValueError
   \<and> td today now rnd time same_fs age \<lparr>workdir = [(''td_old'', Dir m [])], home = h, cwd = []\<rparr>
       = Inl ValueError"
proof -
  have "next_project_type_number ''td'' [(''td_old'', Dir m [])] = Inl ValueError"
    by code_simp
  then show ?thesis
    by (simp add: td_def generic_project_def)
qed

section \<open>The fallback stub is rewritten\<close>

text \<open>
  Claim C2. Running the stub generation again never overwrites an existing stub, also
  when there is no PDF and the fallback stub exists.

  The loop over the PDF files tests \<^verbatim>\<open>md_filepath.exists()\<close>; the branch for no PDF
  does not. A fallback stub that was edited by hand is replaced by the template.
\<close>

theorem fallback_stub_overwritten:
  "create_md_files_for_pdfs today now 1
     [(''project01_rendu_Colin_PROKOPOWICZ.md'', File m ''my notes'')]
   = Inr [(''project01_rendu_Colin_PROKOPOWICZ.md'',
           File now (markdown_header today ''project01_rendu_Colin_PROKOPOWICZ''))]
   \<and> markdown_header today ''project01_rendu_Colin_PROKOPOWICZ'' \<noteq> ''my notes''"
proof
  show "create_md_files_for_pdfs today now 1
     [(''project01_rendu_Colin_PROKOPOWICZ.md'', File m ''my notes'')]
   = Inr [(''project01_rendu_Colin_PROKOPOWICZ.md'',
           File now (markdown_header today ''project01_rendu_Colin_PROKOPOWICZ''))]"
    by code_simp
next
  show "markdown_header today ''project01_rendu_Colin_PROKOPOWICZ'' \<noteq> ''my notes''"
    by (simp add: markdown_header_def)
qed

section \<open>Selecting the recent downloads\<close>

lemma rev_sort_key_descending:
  "sorted_wrt (\<lambda>a b. k b \<le> k a) (rev (sort_key k xs))"
proof -
  have "sorted (map k (sort_key k xs))"
    by simp
  then have "sorted_wrt (\<lambda>a b. k a \<le> k b) (sort_key k xs)"
    by (simp add: sorted_map)
  then show ?thesis
    by (simp add: sorted_wrt_rev)
qed

lemma glob_star_all: "glob_star [] d = d"
  by (simp add: glob_star_def endswith_def)

lemma filtered_files_in_range:
  "\<bar>age * 60\<bar> < 2 ^ 1024 - 2 ^ 970 \<Longrightarrow>
   filtered_files rnd time age i fs =
     Inr (map fst (filter (\<lambda>p. rnd (time (snd p) - rnd (of_int age * 60)) \<le> st_mtime (snd (fst p)))
                     (zip fs [i..<i + length fs])))"
proof (induction fs arbitrary: i)
  case Nil
  then show ?case by simp
next
  case (Cons f fs)
  have "i < i + length (f # fs)"
    by simp
  then have "[i..<i + length (f # fs)] = i # [Suc i..<i + length (f # fs)]"
    by (rule upt_conv_Cons)
  moreover have "i + length (f # fs) = Suc i + length fs"
    by simp
  ultimately have "[i..<i + length (f # fs)] = i # [Suc i..<Suc i + length fs]"
    by (simp only:)
  with Cons.IH [OF Cons.prems, of "Suc i"] Cons.prems show ?case
    by (simp add: float_minus_int_def)
qed

lemma filtered_files_overflow:
  "2 ^ 1024 - 2 ^ 970 \<le> \<bar>age * 60\<bar> \<Longrightarrow> fs \<noteq> [] \<Longrightarrow>
   filtered_files rnd time age i fs = Inl OverflowError"
  by (cases fs) (simp_all add: float_minus_int_def)

lemma filtered_files_sub:
  "filtered_files rnd time age i xs = Inr fs \<Longrightarrow>
   set fs \<subseteq> set xs \<and> (distinct (map fst xs) \<longrightarrow> distinct (map fst fs))"
proof (induction xs arbitrary: i fs)
  case Nil
  then show ?case by simp
next
  case (Cons x xs)
  from Cons.prems obtain rest where rest: "filtered_files rnd time age (Suc i) xs = Inr rest"
    and fs: "fs = x # rest \<or> fs = rest"
    by (auto split: sum.splits if_splits)
  from Cons.IH [OF rest] have sub: "set rest \<subseteq> set xs"
    and dist: "distinct (map fst xs) \<longrightarrow> distinct (map fst rest)"
    by simp_all
  from sub have "fst ` set rest \<subseteq> fst ` set xs"
    by (rule image_mono)
  with fs sub dist show ?case
    by auto
qed

text \<open>The selection when the age converts to a float.\<close>

lemma get_latest_downloads_selection:
  assumes "\<bar>age * 60\<bar> < 2 ^ 1024 - 2 ^ 970"
  shows "\<exists>es. get_latest_downloads rnd h time age = Inr (map fst es)
      \<and> mset es = mset (map fst (filter
            (\<lambda>p. rnd (time (snd p) - rnd (of_int age * 60)) \<le> st_mtime (snd (fst p)))
            (zip (entries_of (download_dir h) h)
                 [0..<length (entries_of (download_dir h) h)])))
      \<and> sorted_wrt (\<lambda>a b. st_mtime (snd b) \<le> st_mtime (snd a)) es"
proof -
  define folder where "folder = entries_of (download_dir h) h"
  define sel where "sel = map fst (filter
      (\<lambda>p. rnd (time (snd p) - rnd (of_int age * 60)) \<le> st_mtime (snd (fst p)))
      (zip folder [0..<length folder]))"
  define es where "es = rev (sort_key (\<lambda>x. st_mtime (snd x)) (rev sel))"
  have perm: "mset es = mset sel"
    by (simp add: es_def)
  have desc: "sorted_wrt (\<lambda>a b. st_mtime (snd b) \<le> st_mtime (snd a)) es"
    unfolding es_def by (rule rev_sort_key_descending)
  have names: "get_latest_downloads rnd h time age = Inr (map fst es)"
    using filtered_files_in_range [OF assms, of rnd time 0 folder]
    by (simp add: get_latest_downloads_def glob_star_all folder_def [symmetric] es_def sel_def)
  from names perm desc show ?thesis
    unfolding folder_def [symmetric] sel_def by blast
qed

text \<open>
  Claim C4, as stated: for every state of the download folder and every non-negative
  maximal age, the harvest selects exactly the entries whose modification time is at
  least \<open>now - age * 60\<close>, most recent first. It fails in two ways. An age of \<open>2 ^ 1024\<close>
  minutes cannot be converted to a float, and the comparison raises
  \<^verbatim>\<open>OverflowError\<close>. And \<open>now\<close> is not one instant: with an age of one minute, \<open>a\<close>
  modified at 5 and tested at 64 is selected, \<open>b\<close> modified at 8 and tested at 69 is not,
  which no single \<open>now\<close> explains.
\<close>

theorem get_latest_downloads_overflow_and_clock:
  "get_latest_downloads (\<lambda>x. x) [(''Downloads'', Dir 0 [(''a'', File 5 ''x'')])] (\<lambda>i. 1000) (2 ^ 1024)
     = Inl OverflowError
   \<and> get_latest_downloads (\<lambda>x. x) [(''Downloads'', Dir 0 [(''a'', File 5 ''x''), (''b'', File 8 ''y'')])]
       (\<lambda>i. if i = 0 then 64 else 69) 1 = Inr [''a'']
   \<and> (\<forall>now. map fst (filter (\<lambda>f. now - 1 * 60 \<le> st_mtime (snd f))
                 [(''a'', File 5 ''x''), (''b'', File 8 ''y'')]) \<noteq> [''a''])"
proof (intro conjI allI)
  show "get_latest_downloads (\<lambda>x. x) [(''Downloads'', Dir 0 [(''a'', File 5 ''x'')])] (\<lambda>i. 1000) (2 ^ 1024)
     = Inl OverflowError"
    by code_simp
  show "get_latest_downloads (\<lambda>x. x) [(''Downloads'', Dir 0 [(''a'', File 5 ''x''), (''b'', File 8 ''y'')])]
       (\<lambda>i. if i = 0 then 64 else 69) 1 = Inr [''a'']"
    by code_simp
  show "map fst (filter (\<lambda>f. now - 1 * 60 \<le> st_mtime (snd f))
                 [(''a'', File 5 ''x''), (''b'', File 8 ''y'')]) \<noteq> [''a'']" for now :: real
    by simp
qed

text \<open>
  Claim C4, amended: for every state of the download folder and every maximal age whose
  number of seconds converts to a float (below \<open>2 ^ 1024 - 2 ^ 970\<close> in absolute value),
  the harvest selects exactly the entries whose modification time is at least
  \<open>t - age * 60\<close>, \<open>t\<close> being the reading of the clock at the test of that entry and the
  difference the one of float arithmetic, most recent first; for a larger age and a
  folder that is not empty it raises \<^verbatim>\<open>OverflowError\<close>. The folder is the French one
  when it exists in the home directory, \<open>Downloads\<close> otherwise.

  The result is the list of names of a list \<open>es\<close> of entries that is a permutation of
  the selected entries and is ordered by descending modification time. The entry at
  position \<open>i\<close> of the folder is tested at \<open>time i\<close>; the float difference rounds the
  number of seconds, then the difference.
\<close>

theorem get_latest_downloads_recent_descending:
  "let folder = (if exists_in h Telechargements then entries_of Telechargements h
                 else entries_of ''Downloads'' h)
   in (\<bar>age * 60\<bar> < 2 ^ 1024 - 2 ^ 970 \<longrightarrow>
         (\<exists>es. get_latest_downloads rnd h time age = Inr (map fst es)
            \<and> mset es = mset (map fst (filter
                  (\<lambda>p. rnd (time (snd p) - rnd (of_int age * 60)) \<le> st_mtime (snd (fst p)))
                  (zip folder [0..<length folder])))
            \<and> sorted_wrt (\<lambda>a b. st_mtime (snd b) \<le> st_mtime (snd a)) es))
    \<and> (2 ^ 1024 - 2 ^ 970 \<le> \<bar>age * 60\<bar> \<and> folder \<noteq> []
         \<longrightarrow> get_latest_downloads rnd h time age = Inl OverflowError)"
proof -
  have folder: "entries_of (download_dir h) h =
      (if exists_in h Telechargements then entries_of Telechargements h
       else entries_of ''Downloads'' h)"
    by (simp add: download_dir_def)
  have over: "get_latest_downloads rnd h time age = Inl OverflowError"
    if "2 ^ 1024 - 2 ^ 970 \<le> \<bar>age * 60\<bar>" and "entries_of (download_dir h) h \<noteq> []"
    using filtered_files_overflow [OF that, of rnd time 0]
    by (simp add: get_latest_downloads_def glob_star_all)
  from get_latest_downloads_selection [of age rnd h time] over show ?thesis
    unfolding Let_def folder [symmetric] by blast
qed

theorem get_latest_downloads_recent_descending_witness:
  "get_latest_downloads (\<lambda>x. x)
     [(''Documents'', Dir 5 []),
      (''Downloads'', Dir 0 [(''a'', File 10 ''x''), (''b'', File 990 ''y''),
                             (''c'', File 995 ''z''), (''d'', Dir 800 [])])]
     (\<lambda>i. 1000 + real i) 5
     = Inr [''c'', ''b'', ''d'']
   \<and> (\<exists>es. [''c'', ''b'', ''d''] = map fst es
         \<and> mset es = mset [(''b'', File 990 ''y''), (''c'', File 995 ''z''), (''d'', Dir 800 [])]
         \<and> sorted_wrt (\<lambda>a b. st_mtime (snd b) \<le> st_mtime (snd a)) es)"
proof -
  let ?h = "[(''Documents'', Dir 5 []),
      (''Downloads'', Dir 0 [(''a'', File 10 ''x''), (''b'', File 990 ''y''),
                             (''c'', File 995 ''z''), (''d'', Dir 800 [])])]"
  have run: "get_latest_downloads (\<lambda>x. x) ?h (\<lambda>i. 1000 + real i) 5 = Inr [''c'', ''b'', ''d'']"
    by code_simp
  have french: "exists_in ?h Telechargements = False"
    by code_simp
  have folder: "entries_of ''Downloads'' ?h
      = [(''a'', File 10 ''x''), (''b'', File 990 ''y''), (''c'', File 995 ''z''), (''d'', Dir 800 [])]"
    by code_simp
  have range: "\<bar>(5::int) * 60\<bar> < 2 ^ 1024 - 2 ^ 970"
    by simp
  have upt: "[0..<4] = [0, 1, 2, 3]"
    by (simp add: upt_rec)
  from get_latest_downloads_recent_descending
         [where h = ?h and age = 5 and rnd = "\<lambda>x. x" and time = "\<lambda>i. 1000 + real i"] range
  show ?thesis
    unfolding Let_def run french folder by (simp add: upt)
qed

text \<open>
  Claim C9, as stated: with a maximal age of 0 the harvest selects no files, whatever the
  download folder holds. It fails for an entry dated after the clock reading: the
  comparison is \<open>time() \<le> st_mtime\<close>, which such an entry passes.
\<close>

theorem zero_age_selects_future_entry:
  "get_latest_downloads (\<lambda>x. x) [(''Downloads'', Dir 0 [(''a.pdf'', File 2000 ''x'')])] (\<lambda>i. 1000) 0
     = Inr [''a.pdf'']"
  by code_simp

text \<open>
  Claim C9, amended: with a maximal age of 0 the harvest selects exactly the entries
  whose modification time is not earlier than the reading of the clock at their test,
  most recent first; it selects no files if and only if every entry of the download
  folder has a modification time strictly before that reading.

  Zero and the readings of the clock are floats, which rounding leaves as they are.
\<close>

theorem zero_age_selects_nothing_iff:
  assumes zero: "rnd 0 = 0"
    and readings: "\<forall>i. rnd (time i) = time i"
  shows "let folder = entries_of (download_dir h) h
   in (\<exists>es. get_latest_downloads rnd h time 0 = Inr (map fst es)
         \<and> mset es = mset (map fst (filter (\<lambda>p. time (snd p) \<le> st_mtime (snd (fst p)))
                                     (zip folder [0..<length folder])))
         \<and> sorted_wrt (\<lambda>a b. st_mtime (snd b) \<le> st_mtime (snd a)) es)
    \<and> ((get_latest_downloads rnd h time 0 = Inr [])
         = (\<forall>p \<in> set (zip folder [0..<length folder]). st_mtime (snd (fst p)) < time (snd p)))"
proof -
  define folder where "folder = entries_of (download_dir h) h"
  define sel where "sel = map fst (filter (\<lambda>p. time (snd p) \<le> st_mtime (snd (fst p)))
                         (zip folder [0..<length folder]))"
  have range: "\<bar>(0::int) * 60\<bar> < 2 ^ 1024 - 2 ^ 970"
    by simp
  have "rnd (time i - rnd (of_int 0 * 60)) = time i" for i
    using zero readings by simp
  then have same: "map fst (filter
        (\<lambda>p. rnd (time (snd p) - rnd (of_int 0 * 60)) \<le> st_mtime (snd (fst p)))
        (zip folder [0..<length folder])) = sel"
    by (simp only: sel_def)
  from get_latest_downloads_selection [OF range, of rnd h time]
  obtain es where names: "get_latest_downloads rnd h time 0 = Inr (map fst es)"
    and perm: "mset es = mset sel"
    and desc: "sorted_wrt (\<lambda>a b. st_mtime (snd b) \<le> st_mtime (snd a)) es"
    unfolding folder_def [symmetric] same by (elim exE conjE)
  from names have "(get_latest_downloads rnd h time 0 = Inr []) = (es = [])"
    by simp
  also from perm have "\<dots> = (sel = [])"
    by (metis mset_zero_iff)
  also have "\<dots> = (\<forall>p \<in> set (zip folder [0..<length folder]).
                       st_mtime (snd (fst p)) < time (snd p))"
    by (auto simp add: sel_def filter_empty_conv not_le)
  finally have none: "(get_latest_downloads rnd h time 0 = Inr [])
      = (\<forall>p \<in> set (zip folder [0..<length folder]). st_mtime (snd (fst p)) < time (snd p))" .
  have some: "\<exists>es. get_latest_downloads rnd h time 0 = Inr (map fst es)
         \<and> mset es = mset sel
         \<and> sorted_wrt (\<lambda>a b. st_mtime (snd b) \<le> st_mtime (snd a)) es"
    using names perm desc by (intro exI [of _ es] conjI)
  from some none show ?thesis
    unfolding Let_def folder_def [symmetric] sel_def [symmetric] by (rule conjI)
qed

theorem zero_age_selects_nothing_iff_witness:
  "get_latest_downloads (\<lambda>x. x) [(''Downloads'', Dir 0 [(''a.pdf'', File 900 ''x'')])]
     (\<lambda>i. 1000) 0 = Inr []"
proof -
  have folder: "entries_of (download_dir [(''Downloads'', Dir 0 [(''a.pdf'', File 900 ''x'')])])
          [(''Downloads'', Dir 0 [(''a.pdf'', File 900 ''x'')])] = [(''a.pdf'', File 900 ''x'')]"
    by code_simp
  have zero: "(\<lambda>x::real. x) 0 = 0"
    by simp
  have readings: "\<forall>i::nat. (\<lambda>x::real. x) ((\<lambda>i. 1000) i) = (\<lambda>i. 1000) i"
    by simp
  from zero_age_selects_nothing_iff [OF zero readings,
         where h = "[(''Downloads'', Dir 0 [(''a.pdf'', File 900 ''x'')])]"]
  show ?thesis
    unfolding Let_def folder by simp
qed

section \<open>Generating the stubs\<close>

lemma exists_in_map_of: "exists_in d k = (map_of d k \<noteq> None)"
  by (simp add: exists_in_def map_of_eq_None_iff)

lemma update_absent: "k \<notin> fst ` set al \<Longrightarrow> AList.update k v al = al @ [(k, v)]"
  by (induction al) auto

lemma exists_in_append: "exists_in (d @ [(k, v)]) k' = (k' = k \<or> exists_in d k')"
  by (auto simp add: exists_in_def)

lemma write_text_absent:
  "\<not> exists_in d k \<Longrightarrow> write_text now k t d = Inr (d @ [(k, File now t)])"
proof -
  assume free: "\<not> exists_in d k"
  then have "map_of d k = None"
    by (simp add: exists_in_map_of)
  moreover from free have "k \<notin> fst ` set d"
    by (simp add: exists_in_def)
  ultimately show ?thesis
    by (simp add: write_text_def update_absent)
qed

lemma create_md_for_pdf_absent:
  "\<not> exists_in d (stem p @ ''_rendu_Colin_PROKOPOWICZ.md'') \<Longrightarrow>
   create_md_for_pdf today now p d =
     Inr (d @ [(stem p @ ''_rendu_Colin_PROKOPOWICZ.md'',
                File now (markdown_header today (stem p)))])"
  by (simp add: create_md_for_pdf_def write_text_absent)

lemma two_element_list:
  assumes "distinct xs" and "set xs = {a, b}" and "a \<noteq> b"
  shows "xs = [a, b] \<or> xs = [b, a]"
proof -
  from assms have "length xs = 2"
    by (metis distinct_card card_2_iff)
  then obtain x y where "xs = [x, y]"
    by (metis (no_types) length_0_conv length_Suc_conv numeral_2_eq_2)
  with assms show ?thesis
    by (auto simp add: doubleton_eq_iff)
qed

text \<open>
  Claim C7. When the PDF files of the destination are \<open>a.pdf\<close> and \<open>b.pdf\<close> and neither
  stub exists, the stub generation creates exactly \<open>a_rendu_Colin_PROKOPOWICZ.md\<close> and
  \<open>b_rendu_Colin_PROKOPOWICZ.md\<close>, each with the template: front matter with a title
  holding the stem of the PDF, the author, the date of the day in ISO format, then a
  level-1 heading with the title.

  The destination may hold any other entries, in any order; the entries of a directory
  have distinct names. The result is the destination followed by the two stubs, in the
  order in which the directory lists the two PDF files.
\<close>

theorem stubs_for_two_pdfs:
  assumes inv: "distinct (map fst dest)"
    and pdfs: "set (map fst (glob_star ''.pdf'' dest)) = {''a.pdf'', ''b.pdf''}"
    and na: "\<not> exists_in dest ''a_rendu_Colin_PROKOPOWICZ.md''"
    and nb: "\<not> exists_in dest ''b_rendu_Colin_PROKOPOWICZ.md''"
  shows "let text = (\<lambda>t. ''---\<newline>title: '' @ [CHR 0x22] @ ''Rendu '' @ t @ [CHR 0x22]
                       @ ''\<newline>author: '' @ [CHR 0x22] @ ''Colin PROKOPOWICZ'' @ [CHR 0x22]
                       @ ''\<newline>date: '' @ [CHR 0x22] @ isoformat today @ [CHR 0x22]
                       @ ''\<newline>---\<newline>\<newline># '' @ t @ ''\<newline>\<newline>'');
             a = (''a_rendu_Colin_PROKOPOWICZ.md'', File now (text ''a''));
             b = (''b_rendu_Colin_PROKOPOWICZ.md'', File now (text ''b''))
         in create_md_files_for_pdfs today now n dest = Inr (dest @ [a, b])
          \<or> create_md_files_for_pdfs today now n dest = Inr (dest @ [b, a])"
proof -
  have sa: "stem ''a.pdf'' = ''a''"
    by code_simp
  have sb: "stem ''b.pdf'' = ''b''"
    by code_simp
  have ta: "markdown_header today ''a'' =
      ''---\<newline>title: '' @ [CHR 0x22] @ ''Rendu '' @ ''a'' @ [CHR 0x22]
      @ ''\<newline>author: '' @ [CHR 0x22] @ ''Colin PROKOPOWICZ'' @ [CHR 0x22]
      @ ''\<newline>date: '' @ [CHR 0x22] @ isoformat today @ [CHR 0x22]
      @ ''\<newline>---\<newline>\<newline># '' @ ''a'' @ ''\<newline>\<newline>''"
    by (simp add: markdown_header_def)
  have tb: "markdown_header today ''b'' =
      ''---\<newline>title: '' @ [CHR 0x22] @ ''Rendu '' @ ''b'' @ [CHR 0x22]
      @ ''\<newline>author: '' @ [CHR 0x22] @ ''Colin PROKOPOWICZ'' @ [CHR 0x22]
      @ ''\<newline>date: '' @ [CHR 0x22] @ isoformat today @ [CHR 0x22]
      @ ''\<newline>---\<newline>\<newline># '' @ ''b'' @ ''\<newline>\<newline>''"
    by (simp add: markdown_header_def)
  from inv have "distinct (map fst (glob_star ''.pdf'' dest))"
    by (simp add: glob_star_def distinct_map_filter)
  with pdfs have "map fst (glob_star ''.pdf'' dest) = [''a.pdf'', ''b.pdf'']
      \<or> map fst (glob_star ''.pdf'' dest) = [''b.pdf'', ''a.pdf'']"
    by (intro two_element_list) simp_all
  then show ?thesis
  proof
    assume ab: "map fst (glob_star ''.pdf'' dest) = [''a.pdf'', ''b.pdf'']"
    have "create_md_files_for_pdfs today now n dest =
       Inr (dest @ [(''a_rendu_Colin_PROKOPOWICZ.md'', File now (markdown_header today ''a'')),
                    (''b_rendu_Colin_PROKOPOWICZ.md'', File now (markdown_header today ''b''))])"
      using na nb
      by (simp add: create_md_files_for_pdfs_def ab create_md_for_pdf_absent sa sb
            exists_in_append)
    then show ?thesis
      unfolding Let_def ta tb by simp
  next
    assume ba: "map fst (glob_star ''.pdf'' dest) = [''b.pdf'', ''a.pdf'']"
    have "create_md_files_for_pdfs today now n dest =
       Inr (dest @ [(''b_rendu_Colin_PROKOPOWICZ.md'', File now (markdown_header today ''b'')),
                    (''a_rendu_Colin_PROKOPOWICZ.md'', File now (markdown_header today ''a''))])"
      using na nb
      by (simp add: create_md_files_for_pdfs_def ba create_md_for_pdf_absent sa sb
            exists_in_append)
    then show ?thesis
      unfolding Let_def ta tb by simp
  qed
qed

theorem stubs_for_two_pdfs_witness:
  "create_md_files_for_pdfs \<lparr>year = 2026, month = 11, day = 3\<rparr> 1000 4
     [(''b.pdf'', File 7 ''%PDF-b''), (''notes.txt'', File 3 ''n''), (''a.pdf'', File 5 ''%PDF-a'')]
   = Inr [(''b.pdf'', File 7 ''%PDF-b''), (''notes.txt'', File 3 ''n''),
          (''a.pdf'', File 5 ''%PDF-a''),
          (''b_rendu_Colin_PROKOPOWICZ.md'',
           File 1000 (''---\<newline>title: '' @ [CHR 0x22] @ ''Rendu b'' @ [CHR 0x22]
             @ ''\<newline>author: '' @ [CHR 0x22] @ ''Colin PROKOPOWICZ'' @ [CHR 0x22]
             @ ''\<newline>date: '' @ [CHR 0x22] @ ''2026-11-03'' @ [CHR 0x22]
             @ ''\<newline>---\<newline>\<newline># b\<newline>\<newline>'')),
          (''a_rendu_Colin_PROKOPOWICZ.md'',
           File 1000 (''---\<newline>title: '' @ [CHR 0x22] @ ''Rendu a'' @ [CHR 0x22]
             @ ''\<newline>author: '' @ [CHR 0x22] @ ''Colin PROKOPOWICZ'' @ [CHR 0x22]
             @ ''\<newline>date: '' @ [CHR 0x22] @ ''2026-11-03'' @ [CHR 0x22]
             @ ''\<newline>---\<newline>\<newline># a\<newline>\<newline>''))]"
proof -
  let ?d = "[(''b.pdf'', File 7 ''%PDF-b''), (''notes.txt'', File 3 ''n''),
             (''a.pdf'', File 5 ''%PDF-a'')]"
  have inv: "distinct (map fst ?d)"
    by simp
  have pdfs: "set (map fst (glob_star ''.pdf'' ?d)) = {''a.pdf'', ''b.pdf''}"
    by (auto simp add: glob_star_def endswith_def)
  have na: "\<not> exists_in ?d ''a_rendu_Colin_PROKOPOWICZ.md''"
    by (simp add: exists_in_def)
  have nb: "\<not> exists_in ?d ''b_rendu_Colin_PROKOPOWICZ.md''"
    by (simp add: exists_in_def)
  have iso: "isoformat \<lparr>year = 2026, month = 11, day = 3\<rparr> = ''2026-11-03''"
    by code_simp
  have first_a: "create_md_files_for_pdfs \<lparr>year = 2026, month = 11, day = 3\<rparr> 1000 4 ?d
      \<noteq> Inr (?d @ [(''a_rendu_Colin_PROKOPOWICZ.md'', x), (''b_rendu_Colin_PROKOPOWICZ.md'', y)])"
    for x y
    by (simp add: create_md_files_for_pdfs_def glob_star_def endswith_def create_md_for_pdf_absent
          exists_in_def stem_def)
  from stubs_for_two_pdfs [OF inv pdfs na nb, of "\<lparr>year = 2026, month = 11, day = 3\<rparr>" 1000 4]
  show ?thesis
    unfolding Let_def iso using first_a by simp
qed

text \<open>
  Claim C8, as stated: with no PDF file in the destination, the stub generation creates
  exactly one stub, named after the fallback number. It fails when a directory already
  has that name: \<^verbatim>\<open>write_text\<close> raises and no stub is created.
\<close>

theorem fallback_stub_blocked_by_directory:
  "create_md_files_for_pdfs \<lparr>year = 2026, month = 11, day = 3\<rparr> 1000 1
     [(''project01_rendu_Colin_PROKOPOWICZ.md'', Dir 0 [])] = Inl IsADirectoryError"
  by code_simp

text \<open>
  Claim C8, amended: with no PDF file in the destination and no entry named as the
  fallback stub, the stub generation adds exactly one entry, the stub
  \<open>project\<close>\<^emph>\<open>NN\<close>\<open>_rendu_Colin_PROKOPOWICZ.md\<close> with \<^emph>\<open>NN\<close> the fallback number in the format
  \<^verbatim>\<open>:02d\<close>, whose text is the template with the base name of the stub as title.
\<close>

theorem fallback_stub_created:
  assumes "glob_star ''.pdf'' dest = []"
    and "\<not> exists_in dest (''project'' @ format_02d n @ ''_rendu_Colin_PROKOPOWICZ.md'')"
  shows "create_md_files_for_pdfs today now n dest =
           Inr (dest @ [(''project'' @ format_02d n @ ''_rendu_Colin_PROKOPOWICZ.md'',
                         File now (markdown_header today
                            (''project'' @ format_02d n @ ''_rendu_Colin_PROKOPOWICZ'')))])"
  using assms by (simp add: create_md_files_for_pdfs_def write_text_absent)

theorem fallback_stub_created_witness:
  "create_md_files_for_pdfs \<lparr>year = 2026, month = 11, day = 3\<rparr> 1000 1
     [(''notes.txt'', File 3 ''n'')]
   = Inr [(''notes.txt'', File 3 ''n''),
          (''project01_rendu_Colin_PROKOPOWICZ.md'',
           File 1000 (''---\<newline>title: '' @ [CHR 0x22]
             @ ''Rendu project01_rendu_Colin_PROKOPOWICZ'' @ [CHR 0x22]
             @ ''\<newline>author: '' @ [CHR 0x22] @ ''Colin PROKOPOWICZ'' @ [CHR 0x22]
             @ ''\<newline>date: '' @ [CHR 0x22] @ ''2026-11-03'' @ [CHR 0x22]
             @ ''\<newline>---\<newline>\<newline># project01_rendu_Colin_PROKOPOWICZ\<newline>\<newline>''))]"
proof -
  have none: "glob_star ''.pdf'' [(''notes.txt'', File 3 ''n'')] = []"
    by code_simp
  have free: "\<not> exists_in [(''notes.txt'', File 3 ''n'')]
      (''project'' @ format_02d 1 @ ''_rendu_Colin_PROKOPOWICZ.md'')"
    by code_simp
  have fmt: "format_02d 1 = ''01''"
    by code_simp
  have iso: "isoformat \<lparr>year = 2026, month = 11, day = 3\<rparr> = ''2026-11-03''"
    by code_simp
  from fallback_stub_created [OF none free, of "\<lparr>year = 2026, month = 11, day = 3\<rparr>" 1000]
  show ?thesis
    by (simp add: fmt iso markdown_header_def)
qed

section \<open>Harvesting\<close>

lemma harvest_append:
  "harvest same_fs mv (xs @ ys) st =
     (case harvest same_fs mv xs st of Inl e \<Rightarrow> Inl e | Inr st' \<Rightarrow> harvest same_fs mv ys st')"
  by (induction xs arbitrary: st) (auto split: sum.splits)

lemma harvest_one_skip: "exists_in (snd st) x \<Longrightarrow> harvest_one same_fs mv x st = Inr st"
  by (simp add: harvest_one_def)

text \<open>A round of the loop touches no name but the candidate's.\<close>

lemma harvest_one_frame:
  assumes "harvest_one same_fs mv x st = Inr st'" and "k \<noteq> x"
  shows "map_of (fst st') k = map_of (fst st) k \<and> map_of (snd st') k = map_of (snd st) k"
  using assms
  by (auto simp add: harvest_one_def shutil_move_def Let_def update_conv' delete_conv'
        split: if_splits option.splits node.splits)

lemma harvest_frame:
  "harvest same_fs mv xs st = Inr st' \<Longrightarrow> k \<notin> set xs \<Longrightarrow>
   map_of (fst st') k = map_of (fst st) k \<and> map_of (snd st') k = map_of (snd st) k"
proof (induction xs arbitrary: st)
  case Nil
  then show ?case by simp
next
  case (Cons x xs)
  from Cons.prems(1) obtain st1 where
    one: "harvest_one same_fs mv x st = Inr st1" and rest: "harvest same_fs mv xs st1 = Inr st'"
    by (auto split: sum.splits)
  from Cons.prems(2) have "k \<noteq> x" and "k \<notin> set xs"
    by auto
  with Cons.IH [OF rest] harvest_one_frame [OF one] show ?case
    by simp
qed

text \<open>An entry of the destination stays as it is, whatever the candidates are.\<close>

lemma harvest_one_kept:
  assumes "harvest_one same_fs mv x st = Inr st'" and "map_of (snd st) k = Some v"
  shows "map_of (snd st') k = Some v"
proof (cases "exists_in (snd st) x")
  case True
  with assms show ?thesis
    by (simp add: harvest_one_skip)
next
  case False
  then have "k \<noteq> x"
    using assms(2) by (auto simp add: exists_in_map_of)
  with harvest_one_frame [OF assms(1)] assms(2) show ?thesis
    by simp
qed

lemma harvest_kept:
  "harvest same_fs mv xs st = Inr st' \<Longrightarrow> map_of (snd st) k = Some v \<Longrightarrow>
   map_of (snd st') k = Some v"
proof (induction xs arbitrary: st)
  case Nil
  then show ?case by simp
next
  case (Cons x xs)
  from Cons.prems(1) obtain st1 where
    one: "harvest_one same_fs mv x st = Inr st1" and rest: "harvest same_fs mv xs st1 = Inr st'"
    by (auto split: sum.splits)
  from harvest_one_kept [OF one Cons.prems(2)] Cons.IH [OF rest] show ?case
    by simp
qed

text \<open>
  Claim C6. A candidate whose name already exists in the new project directory is
  skipped: the existing entry is left as it is, no error is raised, and the remaining
  candidates are processed.

  The candidates are \<open>before @ name # rest\<close>, and the loop has reached \<open>name\<close> in the
  state \<open>(downloads1, dest1)\<close>. The round for \<open>name\<close> returns that state, the loop goes on
  with \<open>rest\<close> from it, and the entry of the destination is the one from before the loop,
  there and in every final state.
\<close>

theorem harvest_skips_existing:
  assumes there: "exists_in dest name"
    and before: "harvest same_fs mv before (downloads, dest) = Inr (downloads1, dest1)"
  shows "harvest_one same_fs mv name (downloads1, dest1) = Inr (downloads1, dest1)
       \<and> harvest same_fs mv (before @ name # rest) (downloads, dest)
           = harvest same_fs mv rest (downloads1, dest1)
       \<and> map_of dest1 name = map_of dest name
       \<and> (\<forall>downloads' dest'.
            harvest same_fs mv (before @ name # rest) (downloads, dest) = Inr (downloads', dest')
            \<longrightarrow> map_of dest' name = map_of dest name)"
proof -
  from there obtain v where v: "map_of dest name = Some v"
    by (auto simp add: exists_in_map_of)
  with harvest_kept [OF before, of name v] have v1: "map_of dest1 name = Some v"
    by simp
  then have "exists_in dest1 name"
    by (simp add: exists_in_map_of)
  then have skip: "harvest_one same_fs mv name (downloads1, dest1) = Inr (downloads1, dest1)"
    by (simp add: harvest_one_skip)
  then have cont: "harvest same_fs mv (before @ name # rest) (downloads, dest)
      = harvest same_fs mv rest (downloads1, dest1)"
    by (simp add: harvest_append before)
  have "map_of dest' name = map_of dest name"
    if "harvest same_fs mv (before @ name # rest) (downloads, dest) = Inr (downloads', dest')"
    for downloads' dest'
    using harvest_kept [OF that, of name v] v by simp
  with skip cont v v1 show ?thesis
    by simp
qed

theorem harvest_skips_existing_witness:
  "harvest True True [''b.txt'', ''a.pdf'', ''c.txt'']
     ([(''b.txt'', File 990 ''b''), (''a.pdf'', File 995 ''new''), (''c.txt'', File 980 ''c'')],
      [(''a.pdf'', File 1 ''old'')])
   = Inr ([(''a.pdf'', File 995 ''new'')],
          [(''a.pdf'', File 1 ''old''), (''b.txt'', File 990 ''b''), (''c.txt'', File 980 ''c'')])"
proof -
  let ?dl = "[(''b.txt'', File 990 ''b''), (''a.pdf'', File 995 ''new''),
              (''c.txt'', File 980 ''c'')]"
  let ?dl1 = "[(''a.pdf'', File 995 ''new''), (''c.txt'', File 980 ''c'')]"
  let ?dest1 = "[(''a.pdf'', File 1 ''old''), (''b.txt'', File 990 ''b'')]"
  have there: "exists_in [(''a.pdf'', File 1 ''old'')] ''a.pdf''"
    by (simp add: exists_in_def)
  have before: "harvest True True [''b.txt''] (?dl, [(''a.pdf'', File 1 ''old'')]) = Inr (?dl1, ?dest1)"
    by code_simp
  have rest: "harvest True True [''c.txt''] (?dl1, ?dest1)
      = Inr ([(''a.pdf'', File 995 ''new'')],
          [(''a.pdf'', File 1 ''old''), (''b.txt'', File 990 ''b''), (''c.txt'', File 980 ''c'')])"
    by code_simp
  from harvest_skips_existing [OF there before, of "[''c.txt'']"] show ?thesis
    by (simp only: rest append.simps)
qed

text \<open>The round for a candidate with a free destination name.\<close>

lemma harvest_one_effect:
  assumes one: "harvest_one same_fs mv x st = Inr st'"
    and free: "\<not> exists_in (snd st) x"
    and src: "map_of (fst st) x = Some nd"
  shows "if mv then map_of (fst st') x = None \<and> map_of (snd st') x = Some nd
         else map_of (fst st') x = Some nd \<and>
              map_of (snd st') x = (case nd of Special _ \<Rightarrow> None | _ \<Rightarrow> Some nd)"
  using assms
  by (auto simp add: harvest_one_def shutil_move_def Let_def update_conv' delete_conv'
        exists_in_map_of split: if_splits node.splits)

lemma harvest_effect:
  assumes names: "distinct names"
    and cand: "name \<in> set names"
    and free: "\<not> exists_in dest name"
    and src: "map_of downloads name = Some nd"
    and run: "harvest same_fs mv names (downloads, dest) = Inr (downloads', dest')"
  shows "if mv then map_of downloads' name = None \<and> map_of dest' name = Some nd
         else map_of downloads' name = Some nd \<and>
              map_of dest' name = (case nd of Special _ \<Rightarrow> None | _ \<Rightarrow> Some nd)"
proof -
  from cand obtain pre post where split: "names = pre @ name # post"
    by (auto dest: split_list)
  with names have npre: "name \<notin> set pre" and npost: "name \<notin> set post"
    by auto
  from run split obtain st1 where pre: "harvest same_fs mv pre (downloads, dest) = Inr st1"
    and tail: "harvest same_fs mv (name # post) st1 = Inr (downloads', dest')"
    by (auto simp add: harvest_append split: sum.splits)
  from tail obtain st2 where one: "harvest_one same_fs mv name st1 = Inr st2"
    and post: "harvest same_fs mv post st2 = Inr (downloads', dest')"
    by (auto split: sum.splits)
  from harvest_frame [OF pre npre] src free
  have src1: "map_of (fst st1) name = Some nd" and free1: "\<not> exists_in (snd st1) name"
    by (simp_all add: exists_in_map_of)
  from harvest_frame [OF post npost]
  have "map_of downloads' name = map_of (fst st2) name"
    and "map_of dest' name = map_of (snd st2) name"
    by simp_all
  with harvest_one_effect [OF one free1 src1] show ?thesis
    by simp
qed

lemma get_latest_downloads_names:
  assumes "get_latest_downloads rnd h time age = Inr names"
  shows "set names \<subseteq> fst ` set (entries_of (download_dir h) h)"
    and "distinct (map fst (entries_of (download_dir h) h)) \<Longrightarrow> distinct names"
proof -
  from assms obtain fs where
    fs: "filtered_files rnd time age 0 (entries_of (download_dir h) h) = Inr fs"
    and names: "names = map fst (rev (sort_key (\<lambda>x. st_mtime (snd x)) (rev fs)))"
    by (auto simp add: get_latest_downloads_def glob_star_all split: sum.splits)
  from names have perm: "mset names = mset (map fst fs)"
    by simp
  then have "set names = fst ` set fs"
    by (metis set_mset_mset set_map)
  with filtered_files_sub [OF fs]
  show "set names \<subseteq> fst ` set (entries_of (download_dir h) h)"
    by auto
  assume "distinct (map fst (entries_of (download_dir h) h))"
  with filtered_files_sub [OF fs] have "distinct (map fst fs)"
    by simp
  with perm show "distinct names"
    by (metis mset_eq_imp_distinct_iff)
qed

text \<open>
  Claim C5, as stated: every harvested candidate with a free destination name is, with
  \<open>move_instead_of_copy\<close> false, left intact and copied to the destination. It fails for
  a candidate that is neither a regular file nor a directory: the copy branch tests
  \<^verbatim>\<open>is_file()\<close>, then \<^verbatim>\<open>is_dir()\<close>, and has no third case. A FIFO in the download
  folder is selected and nothing is created at the destination.
\<close>

theorem copy_skips_special_entry:
  "get_latest_downloads (\<lambda>x. x) [(''Downloads'', Dir 0 [(''pipe'', Special 990)])] (\<lambda>i. 1000) 5
     = Inr [''pipe'']
   \<and> harvest True False [''pipe''] ([(''pipe'', Special 990)], [])
       = Inr ([(''pipe'', Special 990)], [])
   \<and> harvest False False [''pipe''] ([(''pipe'', Special 990)], [])
       = Inr ([(''pipe'', Special 990)], [])"
  by code_simp

text \<open>
  Claim C5, amended: for every harvested candidate whose name is free in the destination,
  once the harvest has completed without error: with \<open>move_instead_of_copy\<close> true the
  entry is gone from the download folder and is, unchanged, at the destination; with
  \<open>move_instead_of_copy\<close> false the entry is still in the download folder, and the
  destination holds an identical copy of it when it is a regular file or a directory,
  and nothing when it is neither.

  The candidates are those of \<open>get_latest_downloads\<close> on a download folder whose entries
  have distinct names.
\<close>

theorem harvest_moves_or_copies:
  assumes inv: "distinct (map fst (entries_of (download_dir h) h))"
    and latest: "get_latest_downloads rnd h time age = Inr names"
    and cand: "name \<in> set names"
    and free: "\<not> exists_in dest name"
    and run: "harvest same_fs mv names (entries_of (download_dir h) h, dest)
                = Inr (downloads', dest')"
  shows "\<exists>nd. map_of (entries_of (download_dir h) h) name = Some nd \<and>
           (if mv then map_of downloads' name = None \<and> map_of dest' name = Some nd
            else map_of downloads' name = Some nd \<and>
                 map_of dest' name = (case nd of Special _ \<Rightarrow> None | _ \<Rightarrow> Some nd))"
proof -
  from cand get_latest_downloads_names(1) [OF latest]
  have "name \<in> fst ` set (entries_of (download_dir h) h)"
    by blast
  then obtain nd where src: "map_of (entries_of (download_dir h) h) name = Some nd"
    by (metis map_of_eq_None_iff not_Some_eq)
  from harvest_effect [OF get_latest_downloads_names(2) [OF latest inv] cand free src run] src
  show ?thesis
    by blast
qed

theorem harvest_moves_or_copies_witness:
  "(let h = [(''Downloads'', Dir 0 [(''a.pdf'', File 995 ''x''), (''old'', File 10 ''o''),
                                    (''d'', Dir 990 [(''f'', File 1 ''y'')])])]
    in get_latest_downloads (\<lambda>x. x) h (\<lambda>i. 1000) 5 = Inr [''a.pdf'', ''d'']
     \<and> harvest False False [''a.pdf'', ''d''] (entries_of (download_dir h) h, [])
         = Inr ([(''a.pdf'', File 995 ''x''), (''old'', File 10 ''o''),
                 (''d'', Dir 990 [(''f'', File 1 ''y'')])],
                [(''a.pdf'', File 995 ''x''), (''d'', Dir 990 [(''f'', File 1 ''y'')])])
     \<and> harvest False True [''a.pdf'', ''d''] (entries_of (download_dir h) h, [])
         = Inr ([(''old'', File 10 ''o'')],
                [(''a.pdf'', File 995 ''x''), (''d'', Dir 990 [(''f'', File 1 ''y'')])]))
   \<and> map_of [(''a.pdf'', File 995 ''x''), (''d'', Dir 990 [(''f'', File 1 ''y'')])] ''d''
       = Some (Dir 990 [(''f'', File 1 ''y'')])
   \<and> map_of [(''old'', File 10 ''o'')] ''a.pdf'' = None"
proof -
  let ?h = "[(''Downloads'', Dir 0 [(''a.pdf'', File 995 ''x''), (''old'', File 10 ''o''),
                                    (''d'', Dir 990 [(''f'', File 1 ''y'')])])]"
  let ?dl = "[(''a.pdf'', File 995 ''x''), (''old'', File 10 ''o''),
              (''d'', Dir 990 [(''f'', File 1 ''y'')])]"
  let ?dest = "[(''a.pdf'', File 995 ''x''), (''d'', Dir 990 [(''f'', File 1 ''y'')])]"
  have folder: "entries_of (download_dir ?h) ?h = ?dl"
    by code_simp
  have latest: "get_latest_downloads (\<lambda>x. x) ?h (\<lambda>i. 1000) 5 = Inr [''a.pdf'', ''d'']"
    by code_simp
  have inv: "distinct (map fst (entries_of (download_dir ?h) ?h))"
    unfolding folder by simp
  have cand_d: "''d'' \<in> set [''a.pdf'', ''d'']"
    by simp
  have cand_a: "''a.pdf'' \<in> set [''a.pdf'', ''d'']"
    by simp
  have free: "\<not> exists_in [] name" for name
    by (simp add: exists_in_def)
  have copy: "harvest False False [''a.pdf'', ''d''] (entries_of (download_dir ?h) ?h, [])
      = Inr (?dl, ?dest)"
    by code_simp
  have move: "harvest False True [''a.pdf'', ''d''] (entries_of (download_dir ?h) ?h, [])
      = Inr ([(''old'', File 10 ''o'')], ?dest)"
    by code_simp
  from harvest_moves_or_copies [OF inv latest cand_d free copy]
  have "map_of ?dest ''d'' = Some (Dir 990 [(''f'', File 1 ''y'')])"
    unfolding folder by simp
  moreover from harvest_moves_or_copies [OF inv latest cand_a free move]
  have "map_of [(''old'', File 10 ''o'')] ''a.pdf'' = None"
    unfolding folder by simp
  ultimately show ?thesis
    using latest copy move unfolding Let_def by blast
qed

section \<open>Converting with overwrite\<close>

lemma rfind_absent: "c \<notin> set ys \<Longrightarrow> rfind c ys = None"
  by (induction ys) auto

lemma rfind_last: "c \<notin> set ys \<Longrightarrow> rfind c (xs @ c # ys) = Some (length xs)"
  by (induction xs) (auto simp add: rfind_absent)

lemma with_suffix_md:
  "with_suffix (s @ ''_rendu_Colin_PROKOPOWICZ.md'') ''.pdf'' = s @ ''_rendu_Colin_PROKOPOWICZ.pdf''"
proof -
  have "rfind CHR ''.'' ((s @ ''_rendu_Colin_PROKOPOWICZ'') @ CHR ''.'' # ''md'')
      = Some (length (s @ ''_rendu_Colin_PROKOPOWICZ''))"
    by (rule rfind_last) simp
  then have "rfind CHR ''.'' (s @ ''_rendu_Colin_PROKOPOWICZ.md'') = Some (length s + 24)"
    by simp
  then have "path_suffix (s @ ''_rendu_Colin_PROKOPOWICZ.md'') = ''.md''"
    by (simp add: path_suffix_def)
  then show ?thesis
    by (simp add: with_suffix_def)
qed

lemma endswith_split: "endswith name tail \<Longrightarrow> \<exists>s. name = s @ tail"
  by (metis append_take_drop_id endswith_def)

lemma with_suffix_md_inj:
  assumes "endswith a ''_rendu_Colin_PROKOPOWICZ.md''"
    and "endswith b ''_rendu_Colin_PROKOPOWICZ.md''"
    and "with_suffix a ''.pdf'' = with_suffix b ''.pdf''"
  shows "a = b"
proof -
  from assms(1) obtain s where a: "a = s @ ''_rendu_Colin_PROKOPOWICZ.md''"
    by (auto dest: endswith_split)
  from assms(2) obtain t where b: "b = t @ ''_rendu_Colin_PROKOPOWICZ.md''"
    by (auto dest: endswith_split)
  from assms(3) show ?thesis
    unfolding a b with_suffix_md by simp
qed

lemma rendu_one_frame:
  assumes "rendu_one pandoc now ow md d = Inr d'" and "k \<noteq> with_suffix md ''.pdf''"
  shows "map_of d' k = map_of d k"
  using assms
  by (auto simp add: rendu_one_def convert_def unlink_def Let_def update_conv' delete_conv'
        split: if_splits option.splits node.splits sum.splits outcome.splits)

lemma rendu_loop_frame:
  "rendu_loop pandoc now ow mds d = Inr d' \<Longrightarrow>
   k \<notin> (\<lambda>m. with_suffix m ''.pdf'') ` set mds \<Longrightarrow> map_of d' k = map_of d k"
proof (induction mds arbitrary: d)
  case Nil
  then show ?case by simp
next
  case (Cons m mds)
  from Cons.prems(1) obtain d1 where
    one: "rendu_one pandoc now ow m d = Inr d1" and rest: "rendu_loop pandoc now ow mds d1 = Inr d'"
    by (auto split: sum.splits)
  from Cons.prems(2) have "k \<noteq> with_suffix m ''.pdf''"
    and "k \<notin> (\<lambda>m. with_suffix m ''.pdf'') ` set mds"
    by auto
  with Cons.IH [OF rest] rendu_one_frame [OF one] show ?case by simp
qed

lemma rendu_loop_append:
  "rendu_loop pandoc now ow (xs @ ys) d =
     (case rendu_loop pandoc now ow xs d of Inl e \<Rightarrow> Inl e
      | Inr d' \<Rightarrow> rendu_loop pandoc now ow ys d')"
  by (induction xs arbitrary: d) (auto split: sum.splits)

lemma rendu_one_deletes_first:
  assumes "map_of d (with_suffix md ''.pdf'') = Some old" and "\<not> is_dir (Some old)"
  shows "rendu_one pandoc now True md d =
     convert pandoc now (with_suffix md ''.pdf'') md (AList.delete (with_suffix md ''.pdf'') d)"
  using assms
  by (auto simp add: rendu_one_def unlink_def is_dir_def exists_in_map_of Let_def
        split: node.splits)

text \<open>
  Claim C10, as stated: in \<open>rendu\<close> with \<open>overwrite\<close> true, for every markdown file whose
  companion PDF exists, the PDF is deleted before the converter is called; when the
  converter then fails, the PDF is gone and the following markdown files are still
  processed. It fails in two ways. When the companion is a directory, \<^verbatim>\<open>unlink\<close> raises,
  nothing is deleted and the command ends there. When the converter cannot be started,
  the PDF is deleted, the exception is not the one that line 90 catches, and the command
  ends without processing the following file.
\<close>

theorem rendu_stops_on_directory_or_missing_converter:
  "rendu (\<lambda>d out inp. CalledProcessError) 1000 True
     [(''x_rendu_Colin_PROKOPOWICZ.md'', File 1 ''# x''),
      (''x_rendu_Colin_PROKOPOWICZ.pdf'', Dir 2 []),
      (''y_rendu_Colin_PROKOPOWICZ.md'', File 3 ''# y'')] = Inl IsADirectoryError
   \<and> rendu (\<lambda>d out inp. NotStarted) 1000 True
     [(''x_rendu_Colin_PROKOPOWICZ.md'', File 1 ''# x''),
      (''x_rendu_Colin_PROKOPOWICZ.pdf'', File 2 ''old pdf''),
      (''y_rendu_Colin_PROKOPOWICZ.md'', File 3 ''# y'')] = Inl FileNotFoundError"
  by code_simp

text \<open>
  Claim C10, amended: in \<open>rendu\<close> with \<open>overwrite\<close> true, for every markdown file whose
  companion PDF exists and is not a directory, the PDF is deleted before the converter
  is called; when the converter then exits with a non-zero status, the PDF is gone for
  good and the following markdown files are still processed.

  The markdown files are \<open>before @ md_file # rest\<close> and the loop has reached \<open>md_file\<close> in
  the state \<open>d1\<close>. The companion is still in \<open>d1\<close>. The round for \<open>md_file\<close> is decided by
  what the converter does on \<open>d1\<close> without the companion: its text is written there, or
  that directory is returned as it is, or the round raises. In the second case the loop
  goes on with \<open>rest\<close>, and the companion is absent from every final state.
\<close>

theorem rendu_deletes_before_converting:
  assumes inv: "distinct (map fst workdir_entries)"
    and mds: "map fst (glob_star ''_rendu_Colin_PROKOPOWICZ.md'' workdir_entries)
                = before @ md_file # rest"
    and pdf: "map_of workdir_entries (with_suffix md_file ''.pdf'') = Some old"
    and nodir: "\<not> is_dir (Some old)"
    and reached: "rendu_loop pandoc now True before workdir_entries = Inr d1"
  shows "let pdf_file = with_suffix md_file ''.pdf''; d2 = AList.delete pdf_file d1
         in map_of d1 pdf_file = Some old
          \<and> map_of d2 pdf_file = None
          \<and> rendu_one pandoc now True md_file d1 =
              (case pandoc d2 pdf_file md_file of
                 Converted text \<Rightarrow> Inr (AList.update pdf_file (File now text) d2)
               | CalledProcessError \<Rightarrow> Inr d2
               | NotStarted \<Rightarrow> Inl FileNotFoundError)
          \<and> (pandoc d2 pdf_file md_file = CalledProcessError \<longrightarrow>
                rendu pandoc now True workdir_entries = rendu_loop pandoc now True rest d2
              \<and> (\<forall>final. rendu pandoc now True workdir_entries = Inr final
                     \<longrightarrow> map_of final pdf_file = None))"
proof -
  let ?pdf = "with_suffix md_file ''.pdf''"
  let ?d2 = "AList.delete ?pdf d1"
  let ?mds = "map fst (glob_star ''_rendu_Colin_PROKOPOWICZ.md'' workdir_entries)"
  from inv have "distinct ?mds"
    by (simp add: glob_star_def distinct_map_filter)
  with mds have nb: "md_file \<notin> set before" and nr: "md_file \<notin> set rest"
    by auto
  have ends: "endswith m ''_rendu_Colin_PROKOPOWICZ.md''" if "m \<in> set ?mds" for m
    using that by (auto simp add: glob_star_def)
  have other: "?pdf \<notin> (\<lambda>m. with_suffix m ''.pdf'') ` set ms"
    if "set ms \<subseteq> set ?mds" and "md_file \<notin> set ms" for ms
  proof
    assume "?pdf \<in> (\<lambda>m. with_suffix m ''.pdf'') ` set ms"
    then obtain m where m: "m \<in> set ms" and eq: "?pdf = with_suffix m ''.pdf''"
      by auto
    from m that(1) have "m \<in> set ?mds"
      by blast
    then have "endswith m ''_rendu_Colin_PROKOPOWICZ.md''"
      by (rule ends)
    moreover have "endswith md_file ''_rendu_Colin_PROKOPOWICZ.md''"
      by (rule ends) (simp add: mds)
    ultimately have "md_file = m"
      using eq by (auto intro: with_suffix_md_inj)
    with m that(2) show False
      by simp
  qed
  have "map_of d1 ?pdf = map_of workdir_entries ?pdf"
    by (rule rendu_loop_frame [OF reached]) (rule other, auto simp add: mds nb)
  with pdf have there: "map_of d1 ?pdf = Some old"
    by simp
  have absent: "map_of ?d2 ?pdf = None"
    by (simp add: delete_conv')
  have "rendu_one pandoc now True md_file d1 = convert pandoc now ?pdf md_file ?d2"
    by (rule rendu_one_deletes_first [OF there nodir])
  then have one: "rendu_one pandoc now True md_file d1 =
      (case pandoc ?d2 ?pdf md_file of
         Converted text \<Rightarrow> Inr (AList.update ?pdf (File now text) ?d2)
       | CalledProcessError \<Rightarrow> Inr ?d2
       | NotStarted \<Rightarrow> Inl FileNotFoundError)"
    by (simp add: convert_def)
  have after: "rendu pandoc now True workdir_entries = rendu_loop pandoc now True rest ?d2
      \<and> (\<forall>final. rendu pandoc now True workdir_entries = Inr final
             \<longrightarrow> map_of final ?pdf = None)"
    if fails: "pandoc ?d2 ?pdf md_file = CalledProcessError"
  proof -
    from one fails have "rendu_one pandoc now True md_file d1 = Inr ?d2"
      by simp
    then have cont: "rendu pandoc now True workdir_entries
        = rendu_loop pandoc now True rest ?d2"
      by (simp add: rendu_def mds rendu_loop_append reached)
    have "map_of final ?pdf = None"
      if "rendu pandoc now True workdir_entries = Inr final" for final
    proof -
      from that cont have "rendu_loop pandoc now True rest ?d2 = Inr final"
        by simp
      then have "map_of final ?pdf = map_of ?d2 ?pdf"
        by (rule rendu_loop_frame) (rule other, auto simp add: mds nr)
      with absent show ?thesis
        by simp
    qed
    with cont show ?thesis
      by blast
  qed
  from there absent one after show ?thesis
    unfolding Let_def by (intro conjI impI) simp_all
qed

theorem rendu_deletes_before_converting_witness:
  "rendu (\<lambda>d out inp. if inp = ''y_rendu_Colin_PROKOPOWICZ.md'' then Converted ''pdf y''
                        else CalledProcessError)
     1000 True
     [(''x_rendu_Colin_PROKOPOWICZ.md'', File 1 ''# x''),
      (''x_rendu_Colin_PROKOPOWICZ.pdf'', File 2 ''old pdf''),
      (''y_rendu_Colin_PROKOPOWICZ.md'', File 3 ''# y'')]
   = Inr [(''x_rendu_Colin_PROKOPOWICZ.md'', File 1 ''# x''),
          (''y_rendu_Colin_PROKOPOWICZ.md'', File 3 ''# y''),
          (''y_rendu_Colin_PROKOPOWICZ.pdf'', File 1000 ''pdf y'')]"
proof -
  let ?pandoc = "\<lambda>(d::listing) (out::string) inp.
      if inp = ''y_rendu_Colin_PROKOPOWICZ.md'' then Converted ''pdf y''
      else CalledProcessError"
  let ?wd = "[(''x_rendu_Colin_PROKOPOWICZ.md'', File 1 ''# x''),
      (''x_rendu_Colin_PROKOPOWICZ.pdf'', File 2 ''old pdf''),
      (''y_rendu_Colin_PROKOPOWICZ.md'', File 3 ''# y'')]"
  have pdf_name: "with_suffix ''x_rendu_Colin_PROKOPOWICZ.md'' ''.pdf''
      = ''x_rendu_Colin_PROKOPOWICZ.pdf''"
    by code_simp
  have inv: "distinct (map fst ?wd)"
    by simp
  have mds: "map fst (glob_star ''_rendu_Colin_PROKOPOWICZ.md'' ?wd)
      = [] @ ''x_rendu_Colin_PROKOPOWICZ.md'' # [''y_rendu_Colin_PROKOPOWICZ.md'']"
    by code_simp
  have pdf: "map_of ?wd (with_suffix ''x_rendu_Colin_PROKOPOWICZ.md'' ''.pdf'')
      = Some (File 2 ''old pdf'')"
    unfolding pdf_name by simp
  have nodir: "\<not> is_dir (Some (File 2 ''old pdf''))"
    by (simp add: is_dir_def)
  have reached: "rendu_loop ?pandoc 1000 True [] ?wd = Inr ?wd"
    by simp
  have rest: "rendu_loop ?pandoc 1000 True [''y_rendu_Colin_PROKOPOWICZ.md'']
      (AList.delete ''x_rendu_Colin_PROKOPOWICZ.pdf'' ?wd)
      = Inr [(''x_rendu_Colin_PROKOPOWICZ.md'', File 1 ''# x''),
          (''y_rendu_Colin_PROKOPOWICZ.md'', File 3 ''# y''),
          (''y_rendu_Colin_PROKOPOWICZ.pdf'', File 1000 ''pdf y'')]"
    by code_simp
  from rendu_deletes_before_converting [OF inv mds pdf nodir reached]
  have "rendu ?pandoc 1000 True ?wd = rendu_loop ?pandoc 1000 True
      [''y_rendu_Colin_PROKOPOWICZ.md''] (AList.delete ''x_rendu_Colin_PROKOPOWICZ.pdf'' ?wd)"
    unfolding Let_def pdf_name by simp
  with rest show ?thesis
    by simp
qed

end
